theory Spec2Isabelle
  imports Main "HOL-Library.Word"
begin

section \<open>JavaScript values and array primitives\<close>

text \<open>
  The order, the coordinates and the loop counters are non-negative integers in every run
  considered here and are modelled as natural numbers; the arithmetic of the program on
  them is exact as long as the values stay below \<open>2\<^sup>5\<^sup>3\<close>. An index returned by
  \<^verbatim>\<open>findIndex\<close> can be \<open>-1\<close> and is an integer.

  A coordinate of a point is either a number or the string \<^verbatim>\<open>'inf'\<close>; strict equality
  \<^verbatim>\<open>===\<close> never identifies a number with that string. A point is the two-element array
  \<^verbatim>\<open>[p[0], p[1]]\<close>, modelled as a pair.
\<close>

datatype coord = Num nat | Inf

type_synonym point = "coord \<times> coord"

text \<open>\<^verbatim>\<open>Array.prototype.push\<close>: append one element at the end.\<close>

definition push :: "'a list \<Rightarrow> 'a \<Rightarrow> 'a list" where
  "push xs x = xs @ [x]"

text \<open>
  \<^verbatim>\<open>Array.prototype.findIndex\<close>: scan from the left, return the index of the first element
  satisfying the predicate, and \<open>-1\<close> when there is none.
\<close>

fun findIndexFrom :: "('a \<Rightarrow> bool) \<Rightarrow> 'a list \<Rightarrow> int \<Rightarrow> int" where
  "findIndexFrom P [] k = - 1"
| "findIndexFrom P (x # xs) k = (if P x then k else findIndexFrom P xs (k + 1))"

definition findIndex :: "('a \<Rightarrow> bool) \<Rightarrow> 'a list \<Rightarrow> int" where
  "findIndex P xs = findIndexFrom P xs 0"

section \<open>Console output\<close>

text \<open>
  Each constructor stands for one of the template strings the program writes to the console
  or collects in \<^verbatim>\<open>errors\<close>; its arguments are the interpolated values, in the order of the
  template.
\<close>

datatype msg =
    GeneratedCards nat nat
  | LinePoints nat nat nat
  | LinesIntersect nat nat nat
  | GeneratedPlane "int list list"
  | TotalCards nat nat
  | CardSymbols nat nat nat
  | CardsShare nat nat nat
  | UniqueSymbols nat nat
  | VerificationFailed
  | VerificationPassed

section \<open>constructProjectivePlane\<close>

definition add :: "nat \<Rightarrow> nat \<Rightarrow> nat \<Rightarrow> nat" where
  "add q a b = (a + b) mod q"

definition multiply :: "nat \<Rightarrow> nat \<Rightarrow> nat \<Rightarrow> nat" where
  "multiply q a b = (a * b) mod q"

text \<open>Lines 43 to 52: the list of points.\<close>

definition points :: "nat \<Rightarrow> point list" where
  "points q =
    (let pts = fold (\<lambda>x pts. fold (\<lambda>y pts. push pts (Num x, Num y)) [0..<q] pts) [0..<q] [];
         pts = fold (\<lambda>x pts. push pts (Num x, Inf)) [0..<q] pts
     in push pts (Inf, Inf))"

text \<open>Lines 60 to 65: the line \<open>y = m x + b\<close>.\<close>

definition slantedLine :: "nat \<Rightarrow> point list \<Rightarrow> nat \<Rightarrow> nat \<Rightarrow> int list" where
  "slantedLine q pts m b =
    (let line = fold (\<lambda>x line.
                   let y = add q (multiply q m x) b
                   in push line (findIndex (\<lambda>p. fst p = Num x \<and> snd p = Num y) pts))
                 [0..<q] []
     in push line (findIndex (\<lambda>p. fst p = Num m \<and> snd p = Inf) pts))"

text \<open>Lines 72 to 76: the vertical line \<open>x = k\<close>.\<close>

definition verticalLine :: "nat \<Rightarrow> point list \<Rightarrow> nat \<Rightarrow> int list" where
  "verticalLine q pts k =
    (let line = fold (\<lambda>y line. push line (findIndex (\<lambda>p. fst p = Num k \<and> snd p = Num y) pts))
                 [0..<q] []
     in push line (findIndex (\<lambda>p. fst p = Inf \<and> snd p = Inf) pts))"

text \<open>Lines 81 to 85: the line at infinity.\<close>

definition infinityLine :: "nat \<Rightarrow> point list \<Rightarrow> int list" where
  "infinityLine q pts =
    (let line = fold (\<lambda>x line. push line (findIndex (\<lambda>p. fst p = Num x \<and> snd p = Inf) pts))
                 [0..<q] []
     in push line (findIndex (\<lambda>p. fst p = Inf \<and> snd p = Inf) pts))"

text \<open>Lines 55 to 86: the array \<^verbatim>\<open>plane\<close> as it stands when the self-check begins.\<close>

definition buildPlane :: "nat \<Rightarrow> int list list" where
  "buildPlane q =
    (let pts = points q;
         plane = fold (\<lambda>m plane. fold (\<lambda>b plane. push plane (slantedLine q pts m b)) [0..<q] plane)
                   [0..<q] [];
         plane = fold (\<lambda>k plane. push plane (verticalLine q pts k)) [0..<q] plane
     in push plane (infinityLine q pts))"

text \<open>
  Lines 88 to 108: the build-time self-check. It only writes to the console; the list
  returned here is what \<^verbatim>\<open>console.error\<close> receives, in order.
\<close>

definition selfCheck :: "nat \<Rightarrow> 'a list list \<Rightarrow> msg list" where
  "selfCheck q plane =
    (let n = q * q + q + 1;
         out = (if length plane \<noteq> n then [GeneratedCards (length plane) n] else []);
         out = fold (\<lambda>i out.
                 if length (plane ! i) \<noteq> q + 1
                 then push out (LinePoints i (length (plane ! i)) (q + 1)) else out)
               [0..<length plane] out
     in fold (\<lambda>i out. fold (\<lambda>j out.
                 let intersection = filter (\<lambda>point. point \<in> set (plane ! j)) (plane ! i)
                 in if length intersection \<noteq> 1
                    then push out (LinesIntersect i j (length intersection)) else out)
               [i + 1..<length plane] out)
          [0..<length plane] out)"

text \<open>
  The function returns the deck; the first component is everything it wrote to the console.
  No statement of the function can throw: every array read is at an index below the
  array's length.
\<close>

definition constructProjectivePlane :: "nat \<Rightarrow> msg list \<times> int list list" where
  "constructProjectivePlane order =
    (let q = order; plane = buildPlane q
     in (push (selfCheck q plane) (GeneratedPlane plane), plane))"

section \<open>verifyProjectivePlane\<close>

text \<open>
  Lines 115 to 141: the array \<^verbatim>\<open>errors\<close> as it stands at line 143. The set
  \<^verbatim>\<open>totalUniqueSymbols\<close> is threaded through the outer loop together with it.
\<close>

definition verifyErrors :: "'a list list \<Rightarrow> msg list" where
  "verifyErrors plane =
    (let n = length plane;
         q = 7;
         expectedN = q * q + q + 1;
         errors = (if n \<noteq> expectedN then [TotalCards n expectedN] else []);
         (errors, totalUniqueSymbols) =
           fold (\<lambda>i (errors, totalUniqueSymbols).
                  let errors = (if length (plane ! i) \<noteq> q + 1
                                then push errors (CardSymbols i (length (plane ! i)) (q + 1))
                                else errors);
                      totalUniqueSymbols = fold insert (plane ! i) totalUniqueSymbols;
                      errors = fold (\<lambda>j errors.
                                 let intersection =
                                       filter (\<lambda>symbol. symbol \<in> set (plane ! j)) (plane ! i)
                                 in if length intersection \<noteq> 1
                                    then push errors (CardsShare i j (length intersection))
                                    else errors)
                               [i + 1..<n] errors
                  in (errors, totalUniqueSymbols))
                [0..<n] (errors, {})
     in if card totalUniqueSymbols \<noteq> expectedN
        then push errors (UniqueSymbols (card totalUniqueSymbols) expectedN)
        else errors)"

definition verifyProjectivePlane :: "'a list list \<Rightarrow> msg list \<times> bool" where
  "verifyProjectivePlane plane =
    (let errors = verifyErrors plane
     in if length errors > 0 then (VerificationFailed # errors, False)
        else ([VerificationPassed], True))"

section \<open>The presentation layer\<close>

text \<open>
  A JavaScript string is a sequence of UTF-16 code units. Every glyph of \<^verbatim>\<open>SYMBOLS\<close> lies in
  the block U+2600 to U+26FF and is a single code unit.
\<close>

type_synonym jsstring = "16 word list"

definition SYMBOLS :: "jsstring list" where
  "SYMBOLS =
    [[0x2660], [0x2665], [0x2666], [0x2663], [0x2664], [0x2661], [0x2662], [0x2667],
     [0x265A], [0x265B], [0x265C], [0x265D], [0x265E], [0x265F], [0x2600], [0x2601],
     [0x2602], [0x2603], [0x2604], [0x2605], [0x2606], [0x260E], [0x260F], [0x2610],
     [0x2611], [0x2612], [0x2613], [0x2616], [0x2617], [0x2618], [0x2619], [0x261A],
     [0x261B], [0x261C], [0x261D], [0x261E], [0x261F], [0x2620], [0x2621], [0x2622],
     [0x2623], [0x2624], [0x2625], [0x2626], [0x2627], [0x2628], [0x2629], [0x262A],
     [0x262B], [0x262C], [0x262D], [0x262E], [0x262F], [0x2630], [0x2631], [0x2632]]"

text \<open>
  \<^verbatim>\<open>SYMBOLS[point]\<close>: the element at an index of the array, and \<^verbatim>\<open>undefined\<close> (here
  \<open>None\<close>) at every other number, \<open>-1\<close> included.
\<close>

definition symbolAt :: "int \<Rightarrow> jsstring option" where
  "symbolAt point =
    (if 0 \<le> point \<and> point < int (length SYMBOLS) then Some (SYMBOLS ! nat point) else None)"

definition generateCardSymbols :: "msg list \<times> jsstring option list list" where
  "generateCardSymbols =
    (let order = 7;
         (out, projective_plane) = constructProjectivePlane order;
         allSymbols = map (\<lambda>line. map (\<lambda>point. symbolAt point) line) projective_plane
     in (out, allSymbols))"

text \<open>
  Lines 157 to 162: the effect that \<^verbatim>\<open>App\<close> runs once at startup. The result is the pair of
  state variables \<^verbatim>\<open>cardSymbols\<close> and \<^verbatim>\<open>verificationResult\<close> after it.
\<close>

definition appStartup :: "jsstring option list list \<times> string" where
  "appStartup =
    (let symbols = snd generateCardSymbols;
         result = snd (verifyProjectivePlane symbols)
     in (symbols, if result then ''Verification passed!'' else ''Verification failed.''))"

section \<open>Notions used to state the properties\<close>

text \<open>The closed form of the enumeration of points: the point stored at index \<open>k\<close>.\<close>

definition pointAt :: "nat \<Rightarrow> nat \<Rightarrow> point" where
  "pointAt q k = (if k < q * q then (Num (k div q), Num (k mod q))
                  else if k < q * q + q then (Num (k - q * q), Inf) else (Inf, Inf))"

text \<open>
  The number the program compares with 1 for a pair of cards: how many entries of the
  first card, repetitions included, occur on the second.
\<close>

definition shared :: "'a list \<Rightarrow> 'a list \<Rightarrow> nat" where
  "shared a b = length (filter (\<lambda>s. s \<in> set b) a)"

text \<open>The messages one round of the pair loop and of the size check add for card \<open>i\<close>.\<close>

definition pairErrors :: "(nat \<Rightarrow> nat \<Rightarrow> nat \<Rightarrow> msg) \<Rightarrow> 'a list list \<Rightarrow> nat \<Rightarrow> msg list" where
  "pairErrors mk plane i =
     map (\<lambda>j. mk i j (shared (plane ! i) (plane ! j)))
       (filter (\<lambda>j. shared (plane ! i) (plane ! j) \<noteq> 1) [i + 1..<length plane])"

definition sizeErrors :: "(nat \<Rightarrow> nat \<Rightarrow> nat \<Rightarrow> msg) \<Rightarrow> nat \<Rightarrow> 'a list list \<Rightarrow> nat \<Rightarrow> msg list" where
  "sizeErrors mk k plane i =
     (if length (plane ! i) \<noteq> k then [mk i (length (plane ! i)) k] else [])"

text \<open>
  The violations of the four checks on a deck, each given as the diagnostic that reports it:
  a wrong number of cards, a card of the wrong length, a pair of cards \<open>i < j\<close> whose count of
  common entries is not 1, and a wrong number of distinct symbols.
\<close>

definition violations :: "'a list list \<Rightarrow> msg set" where
  "violations plane =
     (if length plane \<noteq> 57 then {TotalCards (length plane) 57} else {})
   \<union> {CardSymbols i (length (plane ! i)) 8 | i. i < length plane \<and> length (plane ! i) \<noteq> 8}
   \<union> {CardsShare i j (shared (plane ! i) (plane ! j)) | i j.
        i < j \<and> j < length plane \<and> shared (plane ! i) (plane ! j) \<noteq> 1}
   \<union> (if card (\<Union>(set ` set plane)) \<noteq> 57
      then {UniqueSymbols (card (\<Union>(set ` set plane))) 57} else {})"

text \<open>
  The four structural checks with the pair check read on sets of symbols: two distinct cards
  have exactly one symbol in common.
\<close>

definition structuralChecks :: "'a list list \<Rightarrow> bool" where
  "structuralChecks plane \<longleftrightarrow>
     length plane = 57 \<and> (\<forall>c\<in>set plane. length c = 8) \<and>
     (\<forall>i\<in>{0..<length plane}. \<forall>j\<in>{0..<length plane}.
        i \<noteq> j \<longrightarrow> card (set (plane ! i) \<inter> set (plane ! j)) = 1) \<and>
     card (\<Union>(set ` set plane)) = 57"

text \<open>
  A deck of 57 cards of 8 entries over the 57 symbols \<open>0, \<dots>, 56\<close>: the first card repeats
  the symbol 0 eight times, card \<open>k\<close> is 0 followed by seven copies of \<open>k\<close>.
\<close>

definition dupDeck :: "nat list list" where
  "dupDeck = replicate 8 0 # map (\<lambda>k. 0 # replicate 7 k) [1..<57]"

text \<open>
  Adding the symbol \<open>s\<close> to card \<open>j\<close> of a deck, in front of position \<open>k\<close> (at the end when
  \<open>k\<close> is the length of the card or more).
\<close>

definition addSymbol :: "'a list list \<Rightarrow> nat \<Rightarrow> nat \<Rightarrow> 'a \<Rightarrow> 'a list list" where
  "addSymbol plane j k s = plane[j := take k (plane ! j) @ s # drop k (plane ! j)]"

section \<open>Loops that only append\<close>

lemma fold_push_map: "fold (\<lambda>x acc. push acc (f x)) xs acc = acc @ map f xs"
  by (induction xs arbitrary: acc) (simp_all add: push_def)

lemma fold_append_concat:
  assumes "\<And>x acc. x \<in> set xs \<Longrightarrow> g x acc = acc @ h x"
  shows "fold g xs acc = acc @ concat (map h xs)"
  using assms by (induction xs arbitrary: acc) simp_all

lemma fold_push_if:
  "fold (\<lambda>x acc. if c x then push acc (f x) else acc) xs acc = acc @ map f (filter c xs)"
  by (induction xs arbitrary: acc) (simp_all add: push_def)

lemma map_upt_shift: "map f [a..<a + m] = map (\<lambda>i. f (i + a)) [0..<m]"
proof -
  have "[a..<a + m] = map (\<lambda>i. i + a) [0..<m]"
    by (simp add: map_add_upt add.commute)
  then have "map f [a..<a + m] = map f (map (\<lambda>i. i + a) [0..<m])"
    by (rule arg_cong)
  then show ?thesis by (simp only: map_map o_def)
qed

lemma concat_rows:
  "concat (map (\<lambda>x. map (g x) [0..<q]) [0..<n]) = map (\<lambda>k. g (k div q) (k mod q)) [0..<n * q]"
proof (induction n)
  case 0
  show ?case by simp
next
  case (Suc n)
  have "map (\<lambda>k. g (k div q) (k mod q)) [n * q..<n * q + q] = map (\<lambda>y. g ((y + n * q) div q) ((y + n * q) mod q)) [0..<q]"
    by (rule map_upt_shift)
  also have "\<dots> = map (g n) [0..<q]"
    by (rule map_cong) auto
  finally have row: "map (\<lambda>k. g (k div q) (k mod q)) [n * q..<n * q + q] = map (g n) [0..<q]" .
  have "[0..<n * q + q] = [0..<n * q] @ [n * q..<n * q + q]"
    by (rule upt_add_eq_append) simp
  moreover have "Suc n * q = n * q + q" by simp
  ultimately have "[0..<Suc n * q] = [0..<n * q] @ [n * q..<n * q + q]"
    by (simp only:)
  then show ?case using Suc row by simp
qed

lemma points_rows:
  "points q = concat (map (\<lambda>x. map (\<lambda>y. (Num x, Num y)) [0..<q]) [0..<q])
              @ map (\<lambda>x. (Num x, Inf)) [0..<q] @ [(Inf, Inf)]"
proof -
  have "fold (\<lambda>x pts. fold (\<lambda>y pts. push pts (Num x, Num y)) [0..<q] pts) [0..<q] []
        = [] @ concat (map (\<lambda>x. map (\<lambda>y. (Num x, Num y)) [0..<q]) [0..<q])"
    by (rule fold_append_concat) (simp add: fold_push_map)
  then show ?thesis
    by (simp only: points_def Let_def fold_push_map) (simp add: push_def)
qed

lemma points_pointAt: "points q = map (pointAt q) [0..<q * q + q + 1]"
proof -
  have a: "concat (map (\<lambda>x. map (\<lambda>y. (Num x, Num y)) [0..<q]) [0..<q]) = map (pointAt q) [0..<q * q]"
    unfolding concat_rows by (rule map_cong) (auto simp: pointAt_def)
  have "map (\<lambda>x. (Num x, Inf)) [0..<q] = map (\<lambda>x. pointAt q (x + q * q)) [0..<q]"
    by (rule map_cong) (auto simp: pointAt_def)
  also have "\<dots> = map (pointAt q) [q * q..<q * q + q]"
    by (rule map_upt_shift [symmetric])
  finally have b: "map (\<lambda>x. (Num x, Inf)) [0..<q] = map (pointAt q) [q * q..<q * q + q]" .
  have c: "[(Inf, Inf)] = map (pointAt q) [q * q + q..<q * q + q + 1]"
    by (simp add: pointAt_def)
  have "[0..<q * q + q + 1] = [0..<q * q + q] @ [q * q + q..<q * q + q + 1]"
    by (rule upt_add_eq_append) simp
  moreover have "[0..<q * q + q] = [0..<q * q] @ [q * q..<q * q + q]"
    by (rule upt_add_eq_append) simp
  ultimately have "[0..<q * q + q + 1] = [0..<q * q] @ [q * q..<q * q + q] @ [q * q + q..<q * q + q + 1]"
    by (simp only: append_assoc)
  then show ?thesis
    unfolding points_rows a b c by (simp del: upt_Suc)
qed

lemma findIndexFrom_first:
  "i < length xs \<Longrightarrow> P (xs ! i) \<Longrightarrow> (\<And>j. j < i \<Longrightarrow> \<not> P (xs ! j))
    \<Longrightarrow> findIndexFrom P xs k = k + int i"
proof (induction xs arbitrary: i k)
  case Nil
  then show ?case by simp
next
  case (Cons x xs)
  show ?case
  proof (cases i)
    case 0
    with Cons.prems show ?thesis by simp
  next
    case (Suc i')
    have "\<not> P x" using Cons.prems(3) [of 0] Suc by simp
    moreover have "findIndexFrom P xs (k + 1) = k + 1 + int i'"
      using Cons.prems Suc by (intro Cons.IH) force+
    ultimately show ?thesis using Suc by simp
  qed
qed

lemma findIndex_points:
  assumes "k < q * q + q + 1" and "\<And>j. j < q * q + q + 1 \<Longrightarrow> P (pointAt q j) \<longleftrightarrow> j = k"
  shows "findIndex P (points q) = int k"
proof -
  have "findIndexFrom P (points q) 0 = 0 + int k"
    using assms by (intro findIndexFrom_first) (simp_all add: points_pointAt del: upt_Suc)
  then show ?thesis by (simp add: findIndex_def)
qed

section \<open>The diagnostics in closed form\<close>

lemma fold_insert_set: "fold insert xs S = S \<union> set xs"
  by (induction xs arbitrary: S) auto

lemma fold_pair_state:
  assumes "\<And>x e S. x \<in> set xs \<Longrightarrow> g x (e, S) = (e @ h x, S \<union> t x)"
  shows "fold g xs (e, S) = (e @ concat (map h xs), S \<union> (\<Union>x\<in>set xs. t x))"
  using assms by (induction xs arbitrary: e S) (simp_all add: Un_assoc)

lemma inner_pairs:
  "fold (\<lambda>j out. if length (filter (\<lambda>s. s \<in> set (plane ! j)) (plane ! i)) \<noteq> 1
                 then push out (mk i j (length (filter (\<lambda>s. s \<in> set (plane ! j)) (plane ! i))))
                 else out)
     [i + 1..<length plane] out = out @ pairErrors mk plane i"
  by (simp only: fold_push_if pairErrors_def shared_def)

lemma selfCheck_eq:
  "selfCheck q plane =
     (if length plane \<noteq> q * q + q + 1 then [GeneratedCards (length plane) (q * q + q + 1)] else [])
     @ concat (map (sizeErrors LinePoints (q + 1) plane) [0..<length plane])
     @ concat (map (pairErrors LinesIntersect plane) [0..<length plane])"
proof -
  have sizes: "fold (\<lambda>i out. if length (plane ! i) \<noteq> q + 1
                 then push out (LinePoints i (length (plane ! i)) (q + 1)) else out)
               [0..<length plane] out
              = out @ concat (map (sizeErrors LinePoints (q + 1) plane) [0..<length plane])" for out
    by (rule fold_append_concat) (simp add: sizeErrors_def push_def)
  have pairs: "fold (\<lambda>i out. fold (\<lambda>j out.
                 if length (filter (\<lambda>point. point \<in> set (plane ! j)) (plane ! i)) \<noteq> 1
                 then push out (LinesIntersect i j
                        (length (filter (\<lambda>point. point \<in> set (plane ! j)) (plane ! i))))
                 else out)
               [i + 1..<length plane] out)
          [0..<length plane] out
          = out @ concat (map (pairErrors LinesIntersect plane) [0..<length plane])" for out
    by (rule fold_append_concat) (simp only: inner_pairs)
  show ?thesis
    unfolding selfCheck_def Let_def sizes pairs by simp
qed

lemma verifyErrors_eq:
  "verifyErrors plane =
     (if length plane \<noteq> 57 then [TotalCards (length plane) 57] else [])
     @ concat (map (\<lambda>i. sizeErrors CardSymbols 8 plane i @ pairErrors CardsShare plane i)
                [0..<length plane])
     @ (if card (\<Union>(set ` set plane)) \<noteq> 57
        then [UniqueSymbols (card (\<Union>(set ` set plane))) 57] else [])"
proof -
  have idx: "(\<Union>i\<in>set [0..<length plane]. set (plane ! i)) = \<Union>(set ` set plane)"
  proof -
    have "set plane = (!) plane ` set [0..<length plane]"
      by (metis map_nth set_map)
    then show ?thesis by (simp only: image_image)
  qed
  show ?thesis
    unfolding verifyErrors_def Let_def
    apply (subst fold_pair_state
        [where h = "\<lambda>i. sizeErrors CardSymbols 8 plane i @ pairErrors CardsShare plane i"
           and t = "\<lambda>i. set (plane ! i)"])
    subgoal for i e S
      by (simp only: prod.case inner_pairs fold_insert_set) (simp add: sizeErrors_def push_def)
    subgoal
      by (simp only: idx prod.case) (simp add: push_def)
    done
qed

section \<open>Point lookup\<close>

lemma affine_index_bound: "x < q \<Longrightarrow> y < q \<Longrightarrow> x * q + y < q * (q::nat)"
proof -
  assume "x < q" "y < q"
  then have "x * q + y < x * q + q" by simp
  also have "\<dots> = Suc x * q" by simp
  also have "\<dots> \<le> q * q" using \<open>x < q\<close> by (intro mult_le_mono1) simp
  finally show ?thesis .
qed

lemma pointAt_affine:
  assumes "x < q" "y < q"
  shows "(fst (pointAt q j) = Num x \<and> snd (pointAt q j) = Num y) \<longleftrightarrow> j = x * q + y"
proof (cases "j < q * q")
  case True
  have "j div q = x \<and> j mod q = y \<longleftrightarrow> j = x * q + y"
    using assms by (auto simp: div_mult_mod_eq)
  with True show ?thesis by (simp add: pointAt_def)
next
  case False
  with affine_index_bound [OF assms] show ?thesis by (auto simp: pointAt_def)
qed

lemma pointAt_sloped:
  assumes "x < q"
  shows "(fst (pointAt q j) = Num x \<and> snd (pointAt q j) = Inf) \<longleftrightarrow> j = q * q + x"
  using assms by (auto simp: pointAt_def)

lemma pointAt_inf:
  assumes "j < q * q + q + 1"
  shows "(fst (pointAt q j) = Inf \<and> snd (pointAt q j) = Inf) \<longleftrightarrow> j = q * q + q"
  using assms by (auto simp: pointAt_def)

lemma findIndex_affine:
  assumes "x < q" "y < q"
  shows "findIndex (\<lambda>p. fst p = Num x \<and> snd p = Num y) (points q) = int (x * q + y)"
  using affine_index_bound [OF assms] by (intro findIndex_points) (simp_all add: pointAt_affine [OF assms])

lemma findIndex_sloped:
  assumes "x < q"
  shows "findIndex (\<lambda>p. fst p = Num x \<and> snd p = Inf) (points q) = int (q * q + x)"
  using assms by (intro findIndex_points) (simp_all add: pointAt_sloped)

lemma findIndex_inf:
  "findIndex (\<lambda>p. fst p = Inf \<and> snd p = Inf) (points q) = int (q * q + q)"
  by (intro findIndex_points) (simp_all add: pointAt_inf)

text \<open>
  Claim C7. For every order \<open>q \<ge> 2\<close> and all \<open>x\<close>, \<open>y\<close> below \<open>q\<close>, the three linear searches
  that \<^verbatim>\<open>constructProjectivePlane\<close> runs over the enumerated points return the closed-form
  index: \<open>x q + y\<close> for the affine point, \<open>q\<^sup>2 + x\<close> for the point at infinity of slope
  \<open>x\<close>, and \<open>q\<^sup>2 + q\<close> for the point \<open>(inf, inf)\<close>.
\<close>

theorem findIndex_closed_form:
  assumes "2 \<le> q" and "x < q" and "y < q"
  shows "findIndex (\<lambda>p. fst p = Num x \<and> snd p = Num y) (points q) = int (x * q + y)
       \<and> findIndex (\<lambda>p. fst p = Num x \<and> snd p = Inf) (points q) = int (q * q + x)
       \<and> findIndex (\<lambda>p. fst p = Inf \<and> snd p = Inf) (points q) = int (q * q + q)"
  using assms by (simp add: findIndex_affine findIndex_sloped findIndex_inf)

theorem findIndex_closed_form_witness:
  "(2::nat) \<le> 3 \<and> (2::nat) < 3 \<and> (1::nat) < 3
 \<and> findIndex (\<lambda>p. fst p = Num 2 \<and> snd p = Num 1) (points 3) = 7
 \<and> findIndex (\<lambda>p. fst p = Num 2 \<and> snd p = Inf) (points 3) = 11
 \<and> findIndex (\<lambda>p. fst p = Inf \<and> snd p = Inf) (points 3) = 12"
  using findIndex_closed_form [of 3 2 1] by simp

section \<open>What the verifier reports\<close>

lemma set_pairErrors:
  "set (pairErrors mk plane i) =
     {mk i j (shared (plane ! i) (plane ! j)) | j.
        i < j \<and> j < length plane \<and> shared (plane ! i) (plane ! j) \<noteq> 1}"
  by (auto simp: pairErrors_def)

lemma set_sizeErrors:
  "set (sizeErrors mk k plane i) = {mk i (length (plane ! i)) k | u::unit. length (plane ! i) \<noteq> k}"
  by (auto simp: sizeErrors_def)

lemma set_verifyErrors: "set (verifyErrors plane) = violations plane"
  unfolding verifyErrors_eq violations_def
  by (auto simp: set_pairErrors set_sizeErrors)

lemma distinct_concat_map:
  assumes "distinct xs" and "\<And>x. x \<in> set xs \<Longrightarrow> distinct (h x)"
    and "\<And>x y. x \<in> set xs \<Longrightarrow> y \<in> set xs \<Longrightarrow> x \<noteq> y \<Longrightarrow> set (h x) \<inter> set (h y) = {}"
  shows "distinct (concat (map h xs))"
  using assms
proof (induction xs)
  case Nil
  show ?case by simp
next
  case (Cons a xs)
  have "distinct (concat (map h xs))"
    using Cons.prems by (intro Cons.IH) auto
  moreover have "distinct (h a)" using Cons.prems by simp
  moreover have "set (h a) \<inter> set (concat (map h xs)) = {}"
    using Cons.prems(1) Cons.prems(3) [of a] by fastforce
  ultimately show ?case by simp
qed

lemma distinct_pairErrors:
  assumes "\<And>i j j' k k'. mk i j k = mk i j' k' \<Longrightarrow> j = j'"
  shows "distinct (pairErrors mk plane i)"
  unfolding pairErrors_def
  by (auto simp: distinct_map inj_on_def dest: assms)

lemma distinct_verifyErrors: "distinct (verifyErrors plane)"
proof -
  let ?E = "\<lambda>i. sizeErrors CardSymbols 8 plane i @ pairErrors CardsShare plane i"
  have "distinct (pairErrors CardsShare plane i)" for i
    by (rule distinct_pairErrors) simp
  then have one: "distinct (?E i)" for i
    by (auto simp: set_pairErrors sizeErrors_def)
  have two: "set (?E i) \<inter> set (?E j) = {}" if "i \<noteq> j" for i j
    using that by (auto simp: set_pairErrors sizeErrors_def)
  have "distinct (concat (map ?E [0..<length plane]))"
  proof (rule distinct_concat_map)
    show "distinct [0..<length plane]" by simp
  next
    fix x show "distinct (?E x)" by (rule one)
  next
    fix x y :: nat assume "x \<noteq> y"
    then show "set (?E x) \<inter> set (?E y) = {}" by (rule two)
  qed
  then show ?thesis
    unfolding verifyErrors_eq by (auto simp: set_pairErrors sizeErrors_def)
qed

lemma verifyErrors_Nil_iff:
  "verifyErrors plane = [] \<longleftrightarrow>
     length plane = 57 \<and> (\<forall>i<length plane. length (plane ! i) = 8) \<and>
     (\<forall>j<length plane. \<forall>i<j. shared (plane ! i) (plane ! j) = 1) \<and>
     card (\<Union>(set ` set plane)) = 57"
proof -
  have "verifyErrors plane = [] \<longleftrightarrow> violations plane = {}"
    using set_verifyErrors [of plane] by (metis set_empty)
  also have "\<dots> \<longleftrightarrow> length plane = 57 \<and> (\<forall>i<length plane. length (plane ! i) = 8) \<and>
     (\<forall>j<length plane. \<forall>i<j. shared (plane ! i) (plane ! j) = 1) \<and>
     card (\<Union>(set ` set plane)) = 57"
    unfolding violations_def by auto
  finally show ?thesis .
qed

lemma snd_verify: "snd (verifyProjectivePlane plane) \<longleftrightarrow> verifyErrors plane = []"
  by (simp add: verifyProjectivePlane_def Let_def)

lemma fst_verify:
  "fst (verifyProjectivePlane plane) =
     (if verifyErrors plane = [] then [VerificationPassed]
      else VerificationFailed # verifyErrors plane)"
  by (simp add: verifyProjectivePlane_def Let_def)

lemma selfCheck_Nil_iff:
  "selfCheck q plane = [] \<longleftrightarrow>
     length plane = q * q + q + 1 \<and> (\<forall>i<length plane. length (plane ! i) = q + 1) \<and>
     (\<forall>j<length plane. \<forall>i<j. shared (plane ! i) (plane ! j) = 1)"
proof -
  have a: "(\<forall>i<length plane. sizeErrors LinePoints (q + 1) plane i = []) \<longleftrightarrow>
        (\<forall>i<length plane. length (plane ! i) = q + 1)"
    by (auto simp: sizeErrors_def)
  have b: "(\<forall>i<length plane. pairErrors LinesIntersect plane i = []) \<longleftrightarrow>
        (\<forall>j<length plane. \<forall>i<j. shared (plane ! i) (plane ! j) = 1)"
    by (auto simp: pairErrors_def filter_empty_conv)
  show ?thesis
    unfolding selfCheck_eq using a b by (auto simp del: One_nat_def)
qed

lemma shared_distinct: "distinct a \<Longrightarrow> shared a b = card (set a \<inter> set b)"
proof -
  assume "distinct a"
  then have "shared a b = card ({s. s \<in> set b} \<inter> set a)"
    unfolding shared_def by (rule distinct_length_filter)
  also have "{s. s \<in> set b} \<inter> set a = set a \<inter> set b" by auto
  finally show ?thesis .
qed

section \<open>Acceptance by the verifier\<close>

lemma structuralChecks_distinct:
  assumes "\<forall>c\<in>set plane. distinct c"
  shows "verifyErrors plane = [] \<longleftrightarrow> structuralChecks plane"
proof -
  have sh: "shared (plane ! i) (plane ! j) = card (set (plane ! i) \<inter> set (plane ! j))"
    if "i < length plane" for i j
    using assms that by (intro shared_distinct) simp
  have "(\<forall>j<length plane. \<forall>i<j. shared (plane ! i) (plane ! j) = 1) \<longleftrightarrow>
        (\<forall>i\<in>{0..<length plane}. \<forall>j\<in>{0..<length plane}.
            i \<noteq> j \<longrightarrow> card (set (plane ! i) \<inter> set (plane ! j)) = 1)" (is "?L \<longleftrightarrow> ?R")
  proof
    assume l: ?L
    show ?R
    proof (intro ballI impI)
      fix i j assume ij: "i \<in> {0..<length plane}" "j \<in> {0..<length plane}" "i \<noteq> j"
      show "card (set (plane ! i) \<inter> set (plane ! j)) = 1"
      proof (cases "i < j")
        case True
        then show ?thesis using l ij sh [of i j] by simp
      next
        case False
        then have "j < i" using ij by simp
        then have "card (set (plane ! j) \<inter> set (plane ! i)) = 1"
          using l ij sh [of j i] by simp
        then show ?thesis by (simp add: Int_commute)
      qed
    qed
  next
    assume r: ?R
    show ?L
    proof (intro allI impI)
      fix j i assume "j < length plane" "i < j"
      then show "shared (plane ! i) (plane ! j) = 1"
        using r sh [of i j] by simp
    qed
  qed
  moreover have "(\<forall>i<length plane. length (plane ! i) = 8) \<longleftrightarrow> (\<forall>c\<in>set plane. length c = 8)"
    by (simp add: all_set_conv_all_nth)
  ultimately show ?thesis
    unfolding verifyErrors_Nil_iff structuralChecks_def by simp
qed

lemma verify7: "verifyErrors (buildPlane 7) = []"
  by code_simp

lemma distinct7: "list_all distinct (buildPlane 7)"
  by code_simp

lemma snd_construct: "snd (constructProjectivePlane q) = buildPlane q"
  by (simp add: constructProjectivePlane_def Let_def)

text \<open>
  Claim C5, with the pair check as the program computes it. For every deck,
  \<^verbatim>\<open>verifyProjectivePlane\<close> returns true exactly when the deck has 57 cards, every card has 8
  entries, for every pair of cards \<open>i < j\<close> exactly one entry of card \<open>i\<close> (repetitions
  counted) occurs on card \<open>j\<close>, and the deck shows 57 distinct symbols. The diagnostics are
  exactly the violations of these checks over the whole deck, each reported once, and they
  are what the console receives after the heading. Where no card repeats a symbol, the
  pair check is the size of the intersection of the two symbol sets.
\<close>

theorem verify_reports_every_violation:
  "(snd (verifyProjectivePlane plane) \<longleftrightarrow>
       length plane = 57 \<and> (\<forall>i<length plane. length (plane ! i) = 8) \<and>
       (\<forall>j<length plane. \<forall>i<j. shared (plane ! i) (plane ! j) = 1) \<and>
       card (\<Union>(set ` set plane)) = 57)
   \<and> (snd (verifyProjectivePlane plane) \<longleftrightarrow> violations plane = {})
   \<and> set (verifyErrors plane) = violations plane
   \<and> distinct (verifyErrors plane)
   \<and> fst (verifyProjectivePlane plane) =
       (if violations plane = {} then [VerificationPassed]
        else VerificationFailed # verifyErrors plane)
   \<and> ((\<forall>c\<in>set plane. distinct c) \<longrightarrow>
        (snd (verifyProjectivePlane plane) \<longleftrightarrow> structuralChecks plane))"
proof -
  have e: "verifyErrors plane = [] \<longleftrightarrow> violations plane = {}"
    using set_verifyErrors [of plane] by (metis set_empty)
  show ?thesis
    unfolding snd_verify fst_verify
    using verifyErrors_Nil_iff [of plane] e set_verifyErrors [of plane]
      distinct_verifyErrors [of plane] structuralChecks_distinct [of plane]
    by simp
qed

theorem verify_reports_every_violation_witness:
  "list_all distinct (buildPlane 7) \<and> structuralChecks (buildPlane 7)
   \<and> violations (buildPlane 7) = {}"
proof -
  have d: "\<forall>c\<in>set (buildPlane 7). distinct c"
    using distinct7 by (simp add: list_all_iff)
  have "snd (verifyProjectivePlane (buildPlane 7))"
    using verify7 by (simp add: snd_verify)
  with d verify_reports_every_violation [of "buildPlane 7"] distinct7 show ?thesis by simp
qed

lemma dupDeck_length: "length dupDeck = 57"
  by (simp add: dupDeck_def)

lemma dupDeck_shared: "shared (dupDeck ! 0) (dupDeck ! 1) = 8"
  by code_simp

lemma dupDeck_sizes: "\<forall>c\<in>set dupDeck. length c = 8"
  by code_simp

lemma dupDeck_union: "card (\<Union>(set ` set dupDeck)) = 57"
  by code_simp

lemma set_dupDeck_nth:
  assumes "i < 57"
  shows "set (dupDeck ! i) = (if i = 0 then {0} else {0, i})"
proof (cases i)
  case 0
  then show ?thesis by (simp add: dupDeck_def)
next
  case (Suc n)
  with assms have "n < 56" by simp
  then have "map (\<lambda>k. 0 # replicate 7 k) [1..<57] ! n = 0 # replicate 7 (Suc n)"
    by (simp del: upt_Suc replicate_Suc)
  with Suc show ?thesis by (simp add: dupDeck_def del: upt_Suc)
qed

lemma dupDeck_pairs:
  "(\<forall>i\<in>{0..<length dupDeck}. \<forall>j\<in>{0..<length dupDeck}.
        i \<noteq> j \<longrightarrow> card (set (dupDeck ! i) \<inter> set (dupDeck ! j)) = 1)"
proof (intro ballI impI)
  fix i j assume "i \<in> {0..<length dupDeck}" "j \<in> {0..<length dupDeck}" "i \<noteq> j"
  then have "i < 57" "j < 57" by (simp_all add: dupDeck_length)
  then have "set (dupDeck ! i) \<inter> set (dupDeck ! j) = {0}"
    using \<open>i \<noteq> j\<close> by (auto simp: set_dupDeck_nth)
  then show "card (set (dupDeck ! i) \<inter> set (dupDeck ! j)) = 1" by simp
qed

lemma dupDeck_checks: "structuralChecks dupDeck"
  unfolding structuralChecks_def using dupDeck_length dupDeck_sizes dupDeck_union dupDeck_pairs by simp

lemma dupDeck_rejected: "verifyErrors dupDeck \<noteq> []"
proof
  assume "verifyErrors dupDeck = []"
  then have "\<forall>j<length dupDeck. \<forall>i<j. shared (dupDeck ! i) (dupDeck ! j) = 1"
    using verifyErrors_Nil_iff [of dupDeck] by blast
  then have "shared (dupDeck ! 0) (dupDeck ! 1) = 1"
    by (simp add: dupDeck_length)
  with dupDeck_shared show False by simp
qed

text \<open>
  Read on sets of symbols, the pair check accepts the deck \<open>dupDeck\<close>, in which every two
  cards have exactly the symbol 0 in common, while the program counts eight common entries
  for cards 0 and 1 and rejects the deck.
\<close>

theorem verify_set_reading_counterexample:
  "structuralChecks dupDeck \<and> \<not> snd (verifyProjectivePlane dupDeck)"
  using dupDeck_checks dupDeck_rejected by (simp add: snd_verify)

section \<open>A symbol duplicated onto a second card\<close>

lemma length_filter_disj:
  assumes "\<And>x. x \<in> set xs \<Longrightarrow> \<not> (P x \<and> Q x)"
  shows "length (filter (\<lambda>x. P x \<or> Q x) xs) = length (filter P xs) + length (filter Q xs)"
  using assms by (induction xs) auto

lemma shared_more_right:
  assumes "s \<in> set a" and "s \<notin> set b" and "set b' = insert s (set b)"
  shows "shared a b < shared a b'"
proof -
  have "shared a b' = length (filter (\<lambda>x. x \<in> set b \<or> x = s) a)"
    using assms(3) by (auto simp: shared_def intro: arg_cong [where f = length] filter_cong)
  also have "\<dots> = shared a b + length (filter (\<lambda>x. x = s) a)"
    unfolding shared_def using assms(2) by (intro length_filter_disj) auto
  finally have eq: "shared a b' = shared a b + length (filter (\<lambda>x. x = s) a)" .
  have "filter (\<lambda>x. x = s) a \<noteq> []"
    using assms(1) by (simp add: filter_empty_conv)
  then have "0 < length (filter (\<lambda>x. x = s) a)" by simp
  with eq show ?thesis by simp
qed

lemma set_insert_at: "set (take k xs @ s # drop k xs) = insert s (set xs)"
proof -
  have "set xs = set (take k xs) \<union> set (drop k xs)"
    by (metis append_take_drop_id set_append)
  then show ?thesis by simp
qed

lemma shared_more_left:
  assumes "s \<in> set b"
  shows "shared (take k a @ s # drop k a) b = shared a b + 1"
proof -
  let ?P = "\<lambda>x. x \<in> set b"
  have "filter ?P a = filter ?P (take k a) @ filter ?P (drop k a)"
    by (metis append_take_drop_id filter_append)
  then have "length (filter ?P a) = length (filter ?P (take k a)) + length (filter ?P (drop k a))"
    by simp
  then show ?thesis using assms by (simp add: shared_def)
qed

lemma CardsShare_reported:
  assumes "a < b" and "b < length plane" and "shared (plane ! a) (plane ! b) \<noteq> 1"
  shows "CardsShare a b (shared (plane ! a) (plane ! b)) \<in> set (verifyErrors plane)"
  unfolding set_verifyErrors violations_def using assms by blast

lemma addSymbol_pair:
  assumes ok: "verifyErrors plane = []"
    and i: "i < length plane" and j: "j < length plane" and ij: "i \<noteq> j"
    and si: "s \<in> set (plane ! i)" and sj: "s \<notin> set (plane ! j)"
  shows "\<exists>n. CardsShare (min i j) (max i j) n \<in> set (verifyErrors (addSymbol plane j k s))"
proof -
  let ?p = "addSymbol plane j k s"
  have len: "length ?p = length plane" by (simp add: addSymbol_def)
  have pj: "?p ! j = take k (plane ! j) @ s # drop k (plane ! j)"
    using j by (simp add: addSymbol_def)
  have pi: "?p ! i = plane ! i"
    using ij by (simp add: addSymbol_def)
  have one: "\<forall>b<length plane. \<forall>a<b. shared (plane ! a) (plane ! b) = 1"
    using ok verifyErrors_Nil_iff [of plane] by blast
  show ?thesis
  proof (cases "i < j")
    case True
    have "set (?p ! j) = insert s (set (plane ! j))"
      unfolding pj by (rule set_insert_at)
    then have "shared (plane ! i) (plane ! j) < shared (?p ! i) (?p ! j)"
      unfolding pi using si sj by (intro shared_more_right)
    moreover have "shared (plane ! i) (plane ! j) = 1"
      using one True j by blast
    ultimately have "shared (?p ! i) (?p ! j) \<noteq> 1" by simp
    then have "CardsShare i j (shared (?p ! i) (?p ! j)) \<in> set (verifyErrors ?p)"
      using True j len by (intro CardsShare_reported) simp_all
    with True show ?thesis by (auto simp: min_def max_def)
  next
    case False
    with ij have ji: "j < i" by simp
    have "shared (?p ! j) (?p ! i) = shared (plane ! j) (plane ! i) + 1"
      unfolding pi pj using si by (rule shared_more_left)
    moreover have "shared (plane ! j) (plane ! i) = 1"
      using one ji i by blast
    ultimately have "shared (?p ! j) (?p ! i) \<noteq> 1" by simp
    then have "CardsShare j i (shared (?p ! j) (?p ! i)) \<in> set (verifyErrors ?p)"
      using ji i len by (intro CardsShare_reported) simp_all
    with ji show ?thesis by (auto simp: min_def max_def)
  qed
qed

text \<open>
  Claim C6. Take a deck that the verifier accepts, a symbol \<open>s\<close> on card \<open>i\<close> that is not on
  another card \<open>j\<close>, and add \<open>s\<close> to card \<open>j\<close> at any position. The verifier then returns
  false, and the diagnostics written to the console include one for the pair of cards
  \<open>i\<close> and \<open>j\<close>.
\<close>

theorem duplicated_symbol_detected:
  assumes "snd (verifyProjectivePlane plane)"
    and "i < length plane" and "j < length plane" and "i \<noteq> j"
    and "s \<in> set (plane ! i)" and "s \<notin> set (plane ! j)"
  shows "\<not> snd (verifyProjectivePlane (addSymbol plane j k s))
       \<and> (\<exists>n. CardsShare (min i j) (max i j) n
                \<in> set (fst (verifyProjectivePlane (addSymbol plane j k s))))"
proof -
  have e: "verifyErrors plane = []"
    using assms(1) by (simp add: snd_verify)
  obtain n where n: "CardsShare (min i j) (max i j) n \<in> set (verifyErrors (addSymbol plane j k s))"
    using addSymbol_pair [OF e assms(2-6), of k] by (rule exE)
  then have "verifyErrors (addSymbol plane j k s) \<noteq> []" by auto
  with n show ?thesis by (auto simp: snd_verify fst_verify)
qed

lemma deck7_cards01:
  "0 < length (buildPlane 7)" "1 < length (buildPlane 7)"
  "0 \<in> set (buildPlane 7 ! 0)" "0 \<notin> set (buildPlane 7 ! 1)"
  by code_simp+

theorem duplicated_symbol_detected_witness:
  "snd (verifyProjectivePlane (buildPlane 7))
   \<and> 0 < length (buildPlane 7) \<and> 1 < length (buildPlane 7) \<and> (0::nat) \<noteq> 1
   \<and> 0 \<in> set (buildPlane 7 ! 0) \<and> 0 \<notin> set (buildPlane 7 ! 1)
   \<and> \<not> snd (verifyProjectivePlane (addSymbol (buildPlane 7) 1 8 0))
   \<and> (\<exists>n. CardsShare 0 1 n \<in> set (fst (verifyProjectivePlane (addSymbol (buildPlane 7) 1 8 0))))"
proof -
  have v: "snd (verifyProjectivePlane (buildPlane 7))"
    using verify7 by (simp add: snd_verify)
  have ne: "(0::nat) \<noteq> 1" by simp
  have m: "min (0::nat) 1 = 0" "max (0::nat) 1 = 1" by simp_all
  have "\<not> snd (verifyProjectivePlane (addSymbol (buildPlane 7) 1 8 0))
       \<and> (\<exists>n. CardsShare (min 0 1) (max 0 1) n
            \<in> set (fst (verifyProjectivePlane (addSymbol (buildPlane 7) 1 8 0))))"
    by (rule duplicated_symbol_detected [OF v deck7_cards01(1,2) ne deck7_cards01(3,4)])
  then have "\<not> snd (verifyProjectivePlane (addSymbol (buildPlane 7) 1 8 0))
       \<and> (\<exists>n. CardsShare 0 1 n
            \<in> set (fst (verifyProjectivePlane (addSymbol (buildPlane 7) 1 8 0))))"
    unfolding m .
  with v ne deck7_cards01 show ?thesis by blast
qed

section \<open>The decks of the tested orders\<close>

lemma buildPlane_rows:
  "buildPlane q =
     concat (map (\<lambda>m. map (slantedLine q (points q) m) [0..<q]) [0..<q])
     @ map (verticalLine q (points q)) [0..<q] @ [infinityLine q (points q)]"
proof -
  have "fold (\<lambda>m plane. fold (\<lambda>b plane. push plane (slantedLine q (points q) m b)) [0..<q] plane)
          [0..<q] []
        = [] @ concat (map (\<lambda>m. map (slantedLine q (points q) m) [0..<q]) [0..<q])"
    by (rule fold_append_concat) (simp add: fold_push_map)
  then show ?thesis
    by (simp only: buildPlane_def Let_def fold_push_map) (simp add: push_def)
qed

lemma length_slantedLine: "length (slantedLine q pts m b) = q + 1"
  by (simp only: slantedLine_def Let_def fold_push_map) (simp add: push_def)

lemma length_verticalLine: "length (verticalLine q pts k) = q + 1"
  by (simp only: verticalLine_def Let_def fold_push_map) (simp add: push_def)

lemma length_infinityLine: "length (infinityLine q pts) = q + 1"
  by (simp only: infinityLine_def Let_def fold_push_map) (simp add: push_def)

lemma length_buildPlane: "length (buildPlane q) = q * q + q + 1"
  unfolding buildPlane_rows concat_rows by simp

lemma length_card: "c \<in> set (buildPlane q) \<Longrightarrow> length c = q + 1"
  unfolding buildPlane_rows
  by (auto simp: length_slantedLine length_verticalLine length_infinityLine)

lemma selfCheck2: "selfCheck 2 (buildPlane 2) = []"
  by code_simp

lemma selfCheck3: "selfCheck 3 (buildPlane 3) = []"
  by code_simp

lemma selfCheck5: "selfCheck 5 (buildPlane 5) = []"
  by code_simp

lemma selfCheck7: "selfCheck 7 (buildPlane 7) = []"
  using verify7 unfolding verifyErrors_Nil_iff selfCheck_Nil_iff by simp

lemma distinct2: "list_all distinct (buildPlane 2)"
  by code_simp

lemma distinct3: "list_all distinct (buildPlane 3)"
  by code_simp

lemma distinct5: "list_all distinct (buildPlane 5)"
  by code_simp

lemma union2: "set (concat (buildPlane 2)) = {0..6}"
  by code_simp

lemma union3: "set (concat (buildPlane 3)) = {0..12}"
  by code_simp

lemma union5: "set (concat (buildPlane 5)) = {0..30}"
  by code_simp

lemma union7: "set (concat (buildPlane 7)) = {0..56}"
  by code_simp

lemma tested_cases: "q \<in> {2, 3, 5, 7} \<Longrightarrow> q = 2 \<or> q = 3 \<or> q = 5 \<or> q = (7::nat)"
  by simp

lemma tested_selfCheck:
  assumes "q \<in> {2, 3, 5, 7}"
  shows "selfCheck q (buildPlane q) = []"
  using tested_cases [OF assms] selfCheck2 selfCheck3 selfCheck5 selfCheck7 by auto

lemma tested_distinct:
  assumes "q \<in> {2, 3, 5, 7}"
  shows "\<forall>c\<in>set (buildPlane q). distinct c"
  using tested_cases [OF assms] distinct2 distinct3 distinct5 distinct7
  by (auto simp: list_all_iff)

lemma tested_union:
  assumes "q \<in> {2, 3, 5, 7}"
  shows "\<Union>(set ` set (buildPlane q)) = {0..int (q * q + q)}"
proof -
  have "\<Union>(set ` set (buildPlane q)) = set (concat (buildPlane q))" by simp
  also have "\<dots> = {0..int (q * q + q)}"
    using tested_cases [OF assms] union2 union3 union5 union7 by auto
  finally show ?thesis .
qed

lemma pair_from_shared:
  assumes d: "\<forall>c\<in>set plane. distinct c"
    and one: "\<forall>j<length plane. \<forall>i<j. shared (plane ! i) (plane ! j) = 1"
    and i: "i < length plane" and j: "j < length plane" and ij: "i \<noteq> j"
  shows "card (set (plane ! i) \<inter> set (plane ! j)) = 1"
proof -
  have lt: "card (set (plane ! a) \<inter> set (plane ! b)) = 1" if "a < b" "b < length plane" for a b
  proof -
    have "distinct (plane ! a)" using d that by simp
    then have "shared (plane ! a) (plane ! b) = card (set (plane ! a) \<inter> set (plane ! b))"
      by (rule shared_distinct)
    moreover have "shared (plane ! a) (plane ! b) = 1" using one that by blast
    ultimately show ?thesis by simp
  qed
  show ?thesis
  proof (cases "i < j")
    case True
    then show ?thesis using j by (rule lt)
  next
    case False
    with ij have "j < i" by simp
    then have "card (set (plane ! j) \<inter> set (plane ! i)) = 1" using i by (rule lt)
    then show ?thesis by (simp add: Int_commute)
  qed
qed

text \<open>
  Claim C1. For every order \<open>q\<close> of the test set 2, 3, 5, 7, any two distinct cards of the
  deck returned by \<^verbatim>\<open>constructProjectivePlane(q)\<close> have exactly one point index in common.
\<close>

theorem distinct_cards_share_one_point:
  assumes "q \<in> {2, 3, 5, 7}"
    and "i < length (snd (constructProjectivePlane q))"
    and "j < length (snd (constructProjectivePlane q))"
    and "i \<noteq> j"
  shows "card (set (snd (constructProjectivePlane q) ! i)
             \<inter> set (snd (constructProjectivePlane q) ! j)) = 1"
proof -
  have "selfCheck q (buildPlane q) = []"
    using assms(1) by (rule tested_selfCheck)
  then have "\<forall>j<length (buildPlane q). \<forall>i<j. shared (buildPlane q ! i) (buildPlane q ! j) = 1"
    using selfCheck_Nil_iff [of q "buildPlane q"] by blast
  with tested_distinct [OF assms(1)]
  have "card (set (buildPlane q ! i) \<inter> set (buildPlane q ! j)) = 1"
    using assms(2-4) unfolding snd_construct by (rule pair_from_shared)
  then show ?thesis by (simp only: snd_construct)
qed

lemma deck2_cards01:
  "0 < length (buildPlane 2)" "1 < length (buildPlane 2)"
  by code_simp+

theorem distinct_cards_share_one_point_witness:
  "(2::nat) \<in> {2, 3, 5, 7}
   \<and> 0 < length (snd (constructProjectivePlane 2))
   \<and> 1 < length (snd (constructProjectivePlane 2)) \<and> (0::nat) \<noteq> 1
   \<and> card (set (snd (constructProjectivePlane 2) ! 0)
            \<inter> set (snd (constructProjectivePlane 2) ! 1)) = 1"
proof -
  have q: "(2::nat) \<in> {2, 3, 5, 7}" by simp
  have ne: "(0::nat) \<noteq> 1" by simp
  have l: "0 < length (snd (constructProjectivePlane 2))"
    "1 < length (snd (constructProjectivePlane 2))"
    using deck2_cards01 by (simp_all only: snd_construct)
  from q l ne distinct_cards_share_one_point [OF q l ne] show ?thesis by blast
qed

text \<open>
  Claim C2. For every order \<open>q\<close> of the test set 2, 3, 5, 7, the deck returned by
  \<^verbatim>\<open>constructProjectivePlane(q)\<close> has exactly \<open>q\<^sup>2 + q + 1\<close> cards, and every card is a
  sequence of exactly \<open>q + 1\<close> point indices without repetition.
\<close>

theorem deck_size_and_card_size:
  assumes "q \<in> {2, 3, 5, 7}"
  shows "length (snd (constructProjectivePlane q)) = q * q + q + 1
       \<and> (\<forall>c\<in>set (snd (constructProjectivePlane q)). length c = q + 1 \<and> distinct c)"
  unfolding snd_construct
  using tested_distinct [OF assms] by (simp add: length_buildPlane length_card)

theorem deck_size_and_card_size_witness:
  "(2::nat) \<in> {2, 3, 5, 7}
   \<and> length (snd (constructProjectivePlane 2)) = 7
   \<and> list_all (\<lambda>c. length c = 3 \<and> distinct c) (snd (constructProjectivePlane 2))"
  using deck_size_and_card_size [of 2] by (simp add: list_all_iff)

text \<open>
  Claim C3. For every order \<open>q\<close> of the test set 2, 3, 5, 7, the point indices that occur on
  the cards of \<^verbatim>\<open>constructProjectivePlane(q)\<close> are exactly the numbers \<open>0, \<dots>, q\<^sup>2 + q\<close>, so
  there are \<open>q\<^sup>2 + q + 1\<close> of them.
\<close>

theorem deck_symbols_cover_range:
  assumes "q \<in> {2, 3, 5, 7}"
  shows "\<Union>(set ` set (snd (constructProjectivePlane q))) = {0..int (q * q + q)}
       \<and> card (\<Union>(set ` set (snd (constructProjectivePlane q)))) = q * q + q + 1"
proof -
  have "card {0..int n} = n + 1" for n by simp
  then show ?thesis
    unfolding snd_construct tested_union [OF assms] by blast
qed

theorem deck_symbols_cover_range_witness:
  "(2::nat) \<in> {2, 3, 5, 7}
   \<and> \<Union>(set ` set (snd (constructProjectivePlane 2))) = {0..6}
   \<and> card (\<Union>(set ` set (snd (constructProjectivePlane 2)))) = 7"
  using deck_symbols_cover_range [of 2] by simp

section \<open>The verifier on built decks, and the glyphs\<close>

lemma wrong_length_rejected: "length plane \<noteq> 57 \<Longrightarrow> \<not> snd (verifyProjectivePlane plane)"
  using verifyErrors_Nil_iff [of plane] by (simp add: snd_verify)

text \<open>
  The verifier's order is the constant 7; the deck of order 2 has 7 cards, not 57, and is
  rejected.
\<close>

theorem verify_order2_counterexample:
  "\<not> snd (verifyProjectivePlane (snd (constructProjectivePlane 2)))"
  unfolding snd_construct by (rule wrong_length_rejected) (simp add: length_buildPlane)

text \<open>
  Claim C4, for the order the verifier is written for. Applied to the deck returned by
  \<^verbatim>\<open>constructProjectivePlane(7)\<close>, \<^verbatim>\<open>verifyProjectivePlane\<close> returns true, its list of
  diagnostics is empty and the console receives the success message only. Applied to the
  decks of the other tested orders 2, 3 and 5 it returns false.
\<close>

theorem verify_accepts_reference_deck:
  "snd (verifyProjectivePlane (snd (constructProjectivePlane 7)))
   \<and> verifyErrors (snd (constructProjectivePlane 7)) = []
   \<and> fst (verifyProjectivePlane (snd (constructProjectivePlane 7))) = [VerificationPassed]
   \<and> \<not> snd (verifyProjectivePlane (snd (constructProjectivePlane 2)))
   \<and> \<not> snd (verifyProjectivePlane (snd (constructProjectivePlane 3)))
   \<and> \<not> snd (verifyProjectivePlane (snd (constructProjectivePlane 5)))"
proof -
  have "\<not> snd (verifyProjectivePlane (buildPlane q))" if "q * q + q + 1 \<noteq> 57" for q
    using that by (intro wrong_length_rejected) (simp add: length_buildPlane)
  from this [of 2] this [of 3] this [of 5] show ?thesis
    unfolding snd_construct using verify7 by (simp add: snd_verify fst_verify)
qed

lemma selfCheck4: "selfCheck 4 (buildPlane 4) \<noteq> []"
  by code_simp

lemma slantedLine_closed:
  assumes "m < q"
  shows "slantedLine q (points q) m b =
           map (\<lambda>x. int (x * q + (m * x mod q + b) mod q)) [0..<q] @ [int (q * q + m)]"
proof -
  have "map (\<lambda>x. findIndex (\<lambda>p. fst p = Num x \<and> snd p = Num (add q (multiply q m x) b)) (points q))
          [0..<q]
      = map (\<lambda>x. int (x * q + (m * x mod q + b) mod q)) [0..<q]"
  proof (rule map_cong [OF refl])
    fix x assume "x \<in> set [0..<q]"
    then have x: "x < q" by simp
    then have "add q (multiply q m x) b < q" by (simp add: add_def)
    from findIndex_affine [OF x this]
    show "findIndex (\<lambda>p. fst p = Num x \<and> snd p = Num (add q (multiply q m x) b)) (points q)
          = int (x * q + (m * x mod q + b) mod q)"
      by (simp add: add_def multiply_def)
  qed
  then show ?thesis
    by (simp only: slantedLine_def Let_def fold_push_map)
       (simp add: push_def findIndex_sloped [OF assms])
qed

lemma verticalLine_closed:
  assumes "k < q"
  shows "verticalLine q (points q) k = map (\<lambda>y. int (k * q + y)) [0..<q] @ [int (q * q + q)]"
proof -
  have "map (\<lambda>y. findIndex (\<lambda>p. fst p = Num k \<and> snd p = Num y) (points q)) [0..<q]
      = map (\<lambda>y. int (k * q + y)) [0..<q]"
    using assms by (intro map_cong refl) (simp add: findIndex_affine)
  then show ?thesis
    by (simp only: verticalLine_def Let_def fold_push_map) (simp add: push_def findIndex_inf)
qed

lemma infinityLine_closed:
  "infinityLine q (points q) = map (\<lambda>x. int (q * q + x)) [0..<q] @ [int (q * q + q)]"
proof -
  have "map (\<lambda>x. findIndex (\<lambda>p. fst p = Num x \<and> snd p = Inf) (points q)) [0..<q]
      = map (\<lambda>x. int (q * q + x)) [0..<q]"
    by (intro map_cong refl) (simp add: findIndex_sloped)
  then show ?thesis
    by (simp only: infinityLine_def Let_def fold_push_map) (simp add: push_def findIndex_inf)
qed

lemma int_entries_bounded:
  assumes "p \<in> set (map (\<lambda>x. int (f x)) [0..<q] @ [int z])"
    and "\<And>x. x < q \<Longrightarrow> f x \<le> N" and "z \<le> N"
  shows "0 \<le> p \<and> p \<le> int N"
proof -
  obtain n where "p = int n" "n \<le> N"
    using assms by auto
  then show ?thesis by simp
qed

lemma entries_in_range:
  assumes "c \<in> set (buildPlane q)" and "p \<in> set c"
  shows "0 \<le> p \<and> p \<le> int (q * q + q)"
proof -
  consider (slanted) m b where "m < q" "b < q" "c = slantedLine q (points q) m b"
    | (vertical) k where "k < q" "c = verticalLine q (points q) k"
    | (infinity) "c = infinityLine q (points q)"
    using assms(1) unfolding buildPlane_rows by auto
  then show ?thesis
  proof cases
    case slanted
    have "x * q + (m * x mod q + b) mod q \<le> q * q + q" if "x < q" for x
    proof -
      have "x * q + (m * x mod q + b) mod q < q * q"
        using that by (intro affine_index_bound) simp_all
      then show ?thesis by simp
    qed
    moreover have "q * q + m \<le> q * q + q" using slanted(1) by simp
    moreover have "p \<in> set (map (\<lambda>x. int (x * q + (m * x mod q + b) mod q)) [0..<q]
                           @ [int (q * q + m)])"
      using assms(2) unfolding slanted(3) slantedLine_closed [OF slanted(1)] .
    ultimately show ?thesis by (intro int_entries_bounded)
  next
    case vertical
    have bound: "k * q + y \<le> q * q + q" if "y < q" for y
    proof -
      have "k * q + y < q * q"
        using vertical(1) that by (rule affine_index_bound)
      then show ?thesis by simp
    qed
    have mem: "p \<in> set (map (\<lambda>y. int (k * q + y)) [0..<q] @ [int (q * q + q)])"
      using assms(2) unfolding vertical(2) verticalLine_closed [OF vertical(1)] .
    show ?thesis
      by (rule int_entries_bounded [OF mem bound order_refl])
  next
    case infinity
    have mem: "p \<in> set (map (\<lambda>x. int (q * q + x)) [0..<q] @ [int (q * q + q)])"
      using assms(2) unfolding infinity infinityLine_closed .
    have bound: "q * q + x \<le> q * q + q" if "x < q" for x
      using that by simp
    show ?thesis
      by (rule int_entries_bounded [OF mem bound order_refl])
  qed
qed

text \<open>
  Claim C8. For every order \<open>q \<ge> 2\<close>, prime or not, \<^verbatim>\<open>constructProjectivePlane\<close> returns a deck
  of \<open>q\<^sup>2 + q + 1\<close> cards. The function has no statement that throws and reads arrays only
  inside their bounds, so the model has no failure branch; what the self-check finds goes to
  the console, and the deck returned is the deck built, whatever was found. Every card has
  \<open>q + 1\<close> entries and every entry is the index of a point: no lookup returns \<open>-1\<close>.
\<close>

theorem construct_always_returns_deck:
  assumes "2 \<le> q"
  shows "length (snd (constructProjectivePlane q)) = q * q + q + 1
       \<and> (\<forall>c\<in>set (snd (constructProjectivePlane q)).
            length c = q + 1 \<and> (\<forall>p\<in>set c. 0 \<le> p \<and> p \<le> int (q * q + q)))
       \<and> snd (constructProjectivePlane q) = buildPlane q
       \<and> fst (constructProjectivePlane q)
           = selfCheck q (buildPlane q) @ [GeneratedPlane (buildPlane q)]"
proof -
  have "snd (constructProjectivePlane q) = buildPlane q"
    and "fst (constructProjectivePlane q)
           = selfCheck q (buildPlane q) @ [GeneratedPlane (buildPlane q)]"
    by (simp_all add: constructProjectivePlane_def Let_def push_def)
  then show ?thesis
    using length_buildPlane [of q] length_card [of _ q] entries_in_range [of _ q]
    by auto
qed

theorem construct_always_returns_deck_witness:
  "(2::nat) \<le> 4
   \<and> length (snd (constructProjectivePlane 4)) = 21
   \<and> fst (constructProjectivePlane 4) \<noteq> [GeneratedPlane (snd (constructProjectivePlane 4))]"
proof -
  have h: "(2::nat) \<le> 4" by simp
  note t = construct_always_returns_deck [OF h]
  have a: "length (snd (constructProjectivePlane 4)) = 21"
    using t [THEN conjunct1] by simp
  have "fst (constructProjectivePlane 4) = selfCheck 4 (buildPlane 4) @ [GeneratedPlane (buildPlane 4)]"
    using t by blast
  then have "fst (constructProjectivePlane 4) \<noteq> [GeneratedPlane (snd (constructProjectivePlane 4))]"
    using selfCheck4 by simp
  with h a show ?thesis by blast
qed

lemma length_SYMBOLS: "length SYMBOLS = 56"
  by (simp add: SYMBOLS_def)

lemma distinct_SYMBOLS: "distinct SYMBOLS"
  by code_simp

lemma snd_generate: "snd generateCardSymbols = map (map symbolAt) (buildPlane 7)"
  by (simp add: generateCardSymbols_def Let_def constructProjectivePlane_def split_beta)

lemma last_card7: "56 \<in> set (last (buildPlane 7))"
  by code_simp

lemma last_glyphs7: "None \<in> set (last (map (map symbolAt) (buildPlane 7)))"
  by code_simp

text \<open>
  Claim C9 asks for at least 57 distinct glyphs. The array has 56: the index 56 of the point
  \<open>(inf, inf)\<close>, which is on the last card of the deck of order 7, has no glyph, and the last
  card of \<^verbatim>\<open>generateCardSymbols()\<close> contains \<^verbatim>\<open>undefined\<close>.
\<close>

theorem symbols_array_one_short:
  "length SYMBOLS = 56 \<and> distinct SYMBOLS \<and> symbolAt 56 = None
   \<and> 56 \<in> set (last (snd (constructProjectivePlane 7)))
   \<and> None \<in> set (last (snd generateCardSymbols))"
  unfolding snd_generate snd_construct
  using length_SYMBOLS distinct_SYMBOLS last_card7 last_glyphs7
  by (simp add: symbolAt_def)

lemma shared_map:
  assumes "inj_on f (set a \<union> set b)"
  shows "shared (map f a) (map f b) = shared a b"
proof -
  have "filter (\<lambda>s. s \<in> set (map f b)) (map f a) = map f (filter (\<lambda>x. f x \<in> f ` set b) a)"
    by (simp add: filter_map o_def)
  moreover have "filter (\<lambda>x. f x \<in> f ` set b) a = filter (\<lambda>x. x \<in> set b) a"
    using assms by (intro filter_cong refl) (auto simp: inj_on_def)
  ultimately show ?thesis by (simp add: shared_def)
qed

lemma map_filter_cong:
  assumes "\<And>x. x \<in> set xs \<Longrightarrow> c x = c' x \<and> g x = g' x"
  shows "map g (filter c xs) = map g' (filter c' xs)"
  using assms by (induction xs) auto

lemma verifyErrors_relabel:
  assumes "inj_on f (\<Union>(set ` set plane))"
  shows "verifyErrors (map (map f) plane) = verifyErrors plane"
proof -
  let ?p = "map (map f) plane"
  have sub: "set (plane ! i) \<union> set (plane ! j) \<subseteq> \<Union>(set ` set plane)"
    if "i < length plane" "j < length plane" for i j
    using that by (auto simp: in_set_conv_nth) (metis nth_mem)+
  have sh: "shared (map f (plane ! i)) (map f (plane ! j)) = shared (plane ! i) (plane ! j)"
    if "i < length plane" "j < length plane" for i j
    using inj_on_subset [OF assms sub [OF that]] by (rule shared_map)
  have pe: "pairErrors mk ?p i = pairErrors mk plane i" if i: "i < length plane" for i mk
    unfolding pairErrors_def length_map
  proof (rule map_filter_cong)
    fix j assume "j \<in> set [i + 1..<length plane]"
    then have j: "j < length plane" by simp
    show "(shared (?p ! i) (?p ! j) \<noteq> 1) = (shared (plane ! i) (plane ! j) \<noteq> 1)
        \<and> mk i j (shared (?p ! i) (?p ! j)) = mk i j (shared (plane ! i) (plane ! j))"
      using sh [OF i j] i j by simp
  qed
  have se: "sizeErrors mk k ?p i = sizeErrors mk k plane i" if "i < length plane" for i mk k
    using that by (simp add: sizeErrors_def)
  have "\<Union>(set ` set ?p) = f ` \<Union>(set ` set plane)" by auto
  then have un: "card (\<Union>(set ` set ?p)) = card (\<Union>(set ` set plane))"
    using assms by (simp only: card_image)
  have mid: "map (\<lambda>i. sizeErrors CardSymbols 8 ?p i @ pairErrors CardsShare ?p i) [0..<length plane]
      = map (\<lambda>i. sizeErrors CardSymbols 8 plane i @ pairErrors CardsShare plane i) [0..<length plane]"
    by (intro map_cong refl) (simp add: pe se)
  show ?thesis
    by (simp only: verifyErrors_eq length_map un mid)
qed

lemma symbolAt_inj: "inj_on symbolAt {0..56}"
proof (rule inj_onI)
  fix x y :: int
  assume x: "x \<in> {0..56}" and y: "y \<in> {0..56}" and eq: "symbolAt x = symbolAt y"
  show "x = y"
  proof (cases "x < 56 \<and> y < 56")
    case True
    with x y eq have "SYMBOLS ! nat x = SYMBOLS ! nat y"
      by (simp add: symbolAt_def length_SYMBOLS)
    moreover have "nat x < 56" "nat y < 56"
      using True x y by auto
    then have "nat x < length SYMBOLS" "nat y < length SYMBOLS"
      by (simp_all only: length_SYMBOLS)
    ultimately have "nat x = nat y"
      using distinct_SYMBOLS nth_eq_iff_index_eq by blast
    then have "int (nat x) = int (nat y)" by simp
    moreover have "0 \<le> x" "0 \<le> y" using x y by simp_all
    ultimately show ?thesis by simp
  next
    case False
    with x y eq show ?thesis
      by (auto simp: symbolAt_def length_SYMBOLS split: if_splits)
  qed
qed

text \<open>
  Claim C10. The verification that \<^verbatim>\<open>App\<close> runs at startup passes: on the deck of glyphs
  returned by \<^verbatim>\<open>generateCardSymbols()\<close>, in which the index 56 has become \<^verbatim>\<open>undefined\<close>,
  \<^verbatim>\<open>verifyProjectivePlane\<close> returns true and the status is the success string. The reason
  is the one the claim gives: the lookup \<^verbatim>\<open>SYMBOLS[point]\<close> is injective on the indices the
  deck uses, and the verifier reports the same for any deck and for its image under a
  relabelling that is injective on the symbols of the deck.
\<close>

theorem startup_verification_passes:
  "snd (verifyProjectivePlane (snd generateCardSymbols))
   \<and> appStartup = (snd generateCardSymbols, ''Verification passed!'')
   \<and> symbolAt 56 = None
   \<and> 56 \<in> \<Union>(set ` set (snd (constructProjectivePlane 7)))
   \<and> inj_on symbolAt (\<Union>(set ` set (snd (constructProjectivePlane 7))))
   \<and> (\<forall>(f :: 'a \<Rightarrow> 'b) plane. inj_on f (\<Union>(set ` set plane)) \<longrightarrow>
          verifyProjectivePlane (map (map f) plane) = verifyProjectivePlane plane)"
proof -
  have u: "\<Union>(set ` set (buildPlane 7)) = {0..56}"
    using union7 by simp
  then have inj: "inj_on symbolAt (\<Union>(set ` set (buildPlane 7)))"
    using symbolAt_inj by (simp only:)
  then have eq: "verifyErrors (map (map symbolAt) (buildPlane 7)) = verifyErrors (buildPlane 7)"
    by (rule verifyErrors_relabel)
  then have pass: "snd (verifyProjectivePlane (snd generateCardSymbols))"
    using verify7 by (simp add: snd_generate snd_verify)
  have none: "symbolAt 56 = None"
    by (simp add: symbolAt_def length_SYMBOLS)
  have rel: "verifyProjectivePlane (map (map f) plane) = verifyProjectivePlane plane"
    if "inj_on f (\<Union>(set ` set plane))" for f :: "'a \<Rightarrow> 'b" and plane
    using verifyErrors_relabel [OF that] by (simp add: verifyProjectivePlane_def)
  show ?thesis
    using pass none inj u rel
    by (simp add: appStartup_def Let_def snd_generate snd_construct)
qed

theorem startup_verification_passes_witness:
  "inj_on symbolAt (\<Union>(set ` set (buildPlane 7)))
   \<and> verifyProjectivePlane (map (map symbolAt) (buildPlane 7)) = ([VerificationPassed], True)"
proof -
  note t = startup_verification_passes [where 'a = int and 'b = "jsstring option"]
  have inj: "inj_on symbolAt (\<Union>(set ` set (buildPlane 7)))"
    using t by (simp only: snd_construct)
  moreover have "verifyProjectivePlane (map (map symbolAt) (buildPlane 7))
      = verifyProjectivePlane (buildPlane 7)"
    using t inj by blast
  moreover have "verifyProjectivePlane (buildPlane 7) = ([VerificationPassed], True)"
    using verify7 by (simp add: verifyProjectivePlane_def)
  ultimately show ?thesis by simp
qed

end
